theory Spec2Isabelle
  imports Main "HOL-Library.Code_Target_Nat"
begin

section \<open>Data model\<close>

text \<open>
  The transcription daemon \<^verbatim>\<open>geo-transcript-srv.py\<close> works on Python strings
  (sequences of Unicode code points) and on byte strings read from and written to a
  socket. A Python \<^verbatim>\<open>str\<close> is modelled as a list of code points (\<^verbatim>\<open>ord(c)\<close>),
  a \<^verbatim>\<open>bytes\<close> object as a list of byte values. ASCII literals of the source
  (\<^verbatim>\<open>'th'\<close>, \<^verbatim>\<open>'<s/>'\<close>) are written \<open>ustr_of ''th''\<close>.
  Verbose tracing (\<^verbatim>\<open>vout\<close>) only writes to standard output and is left out.
\<close>

type_synonym codepoint = nat
type_synonym ustr = "codepoint list"
type_synonym byte = nat
type_synonym bytes = "byte list"

definition ustr_of :: "string \<Rightarrow> ustr" where
  "ustr_of s = map of_char s"

text \<open>The exceptions that the modelled code paths can raise.\<close>

datatype exn = IndexError | ValueError | TypeError | UnicodeDecodeError | UnicodeEncodeError
  | StructError | EngineError | BackendError | SystemExit

text \<open>
  The two kinds of Python values that meet in the comparison \<^verbatim>\<open>length == 0\<close> of
  \<^verbatim>\<open>read_request\<close>: \<^verbatim>\<open>struct.unpack\<close> returns a tuple, the literal is an
  integer. Python's \<^verbatim>\<open>==\<close> between a tuple and an integer is \<^verbatim>\<open>False\<close>.
\<close>

datatype pyval = PyInt nat | PyTuple "nat list"

fun py_eq :: "pyval \<Rightarrow> pyval \<Rightarrow> bool" where
  "py_eq (PyInt a) (PyInt b) = (a = b)"
| "py_eq (PyTuple a) (PyTuple b) = (a = b)"
| "py_eq _ _ = False"

text \<open>What is written to standard error.\<close>

datatype log_entry =
    TltkError ustr
  | JyutpingError ustr
  | NonString ustr ustr ustr
  | RequestError ustr exn

section \<open>UTF-8 and the length prefix\<close>

text \<open>
  \<^verbatim>\<open>str.encode('utf-8')\<close> and \<^verbatim>\<open>bytes.decode('utf-8')\<close> in their default strict
  mode: surrogates and code points beyond U+10FFFF do not encode; overlong forms,
  surrogates, stray continuation bytes and truncated sequences do not decode.
\<close>

definition utf8_encode_cp :: "codepoint \<Rightarrow> bytes option" where
  "utf8_encode_cp c =
     (if c < 0x80 then Some [c]
      else if c < 0x800 then Some [0xC0 + c div 64, 0x80 + c mod 64]
      else if c < 0x10000 then
        (if 0xD800 \<le> c \<and> c \<le> 0xDFFF then None
         else Some [0xE0 + c div 4096, 0x80 + c div 64 mod 64, 0x80 + c mod 64])
      else if c < 0x110000 then
        Some [0xF0 + c div 262144, 0x80 + c div 4096 mod 64, 0x80 + c div 64 mod 64,
              0x80 + c mod 64]
      else None)"

fun utf8_encode :: "ustr \<Rightarrow> bytes option" where
  "utf8_encode [] = Some []"
| "utf8_encode (c # cs) =
     (case utf8_encode_cp c of
        None \<Rightarrow> None
      | Some bs \<Rightarrow> (case utf8_encode cs of None \<Rightarrow> None | Some r \<Rightarrow> Some (bs @ r)))"

definition is_cont :: "byte \<Rightarrow> bool" where
  "is_cont b \<longleftrightarrow> 0x80 \<le> b \<and> b < 0xC0"

fun utf8_decode :: "bytes \<Rightarrow> ustr option" where
  "utf8_decode [] = Some []"
| "utf8_decode (b0 # bs) =
     (if b0 < 0x80 then map_option (Cons b0) (utf8_decode bs)
      else if 0xC2 \<le> b0 \<and> b0 < 0xE0 then
        (case bs of
           b1 # r \<Rightarrow>
             if is_cont b1
             then map_option (Cons ((b0 - 0xC0) * 64 + (b1 - 0x80))) (utf8_decode r)
             else None
         | _ \<Rightarrow> None)
      else if 0xE0 \<le> b0 \<and> b0 < 0xF0 then
        (case bs of
           b1 # b2 # r \<Rightarrow>
             (let c = (b0 - 0xE0) * 4096 + (b1 - 0x80) * 64 + (b2 - 0x80) in
              if is_cont b1 \<and> is_cont b2 \<and> 0x800 \<le> c \<and> \<not> (0xD800 \<le> c \<and> c \<le> 0xDFFF)
              then map_option (Cons c) (utf8_decode r)
              else None)
         | _ \<Rightarrow> None)
      else if 0xF0 \<le> b0 \<and> b0 < 0xF5 then
        (case bs of
           b1 # b2 # b3 # r \<Rightarrow>
             (let c = (b0 - 0xF0) * 262144 + (b1 - 0x80) * 4096 + (b2 - 0x80) * 64 + (b3 - 0x80) in
              if is_cont b1 \<and> is_cont b2 \<and> is_cont b3 \<and> 0x10000 \<le> c \<and> c < 0x110000
              then map_option (Cons c) (utf8_decode r)
              else None)
         | _ \<Rightarrow> None)
      else None)"

text \<open>
  \<^verbatim>\<open>struct.pack('I', n)\<close> and \<^verbatim>\<open>struct.unpack('I', b)\<close>: a 4-byte unsigned
  integer in the byte order of the host, taken little-endian here. Packing raises
  \<^verbatim>\<open>struct.error\<close> beyond \<open>2^32 - 1\<close>; unpacking returns a 1-tuple.
\<close>

definition le_bytes4 :: "nat \<Rightarrow> bytes" where
  "le_bytes4 n = [n mod 256, n div 256 mod 256, n div 65536 mod 256, n div 16777216 mod 256]"

definition pack_I :: "nat \<Rightarrow> exn + bytes" where
  "pack_I n = (if n < 4294967296 then Inr (le_bytes4 n) else Inl StructError)"

fun unpack_I :: "bytes \<Rightarrow> exn + pyval" where
  "unpack_I [b0, b1, b2, b3] = Inr (PyTuple [b0 + 256 * b1 + 65536 * b2 + 16777216 * b3])"
| "unpack_I _ = Inl StructError"

section \<open>Reading a request and writing a reply\<close>

text \<open>
  The reader is the list of bytes the peer sends before it closes the stream.
  \<^verbatim>\<open>reader.readexactly(n)\<close> returns \<open>n\<close> bytes and leaves the rest, or raises
  \<^verbatim>\<open>IncompleteReadError\<close> (here \<open>None\<close>) when the stream ends first.
\<close>

definition readexactly :: "nat \<Rightarrow> bytes \<Rightarrow> (bytes \<times> bytes) option" where
  "readexactly n s = (if n \<le> length s then Some (take n s, drop n s) else None)"

text \<open>
  \<^verbatim>\<open>read_request\<close>: the result is \<open>Inr None\<close> where the source returns \<^verbatim>\<open>None\<close>,
  \<open>Inr (Some t)\<close> for a decoded payload, \<open>Inl x\<close> for an exception that leaves the
  function; the second component is what is left of the stream.
\<close>

definition read_request :: "bytes \<Rightarrow> (exn + ustr option) \<times> bytes" where
  "read_request s =
     (case readexactly 4 s of
        None \<Rightarrow> (Inr None, [])
      | Some (lendata, s1) \<Rightarrow>
          if length lendata = 0 then (Inr None, s1)
          else
            (case unpack_I lendata of
               Inl x \<Rightarrow> (Inl x, s1)
             | Inr len \<Rightarrow>
                 if py_eq len (PyInt 0) then (Inr None, s1)
                 else
                   (case len of
                      PyTuple (n # _) \<Rightarrow>
                        (case readexactly n s1 of
                           None \<Rightarrow> (Inr None, [])
                         | Some (data, s2) \<Rightarrow>
                             (case utf8_decode data of
                                None \<Rightarrow> (Inl UnicodeDecodeError, s2)
                              | Some t \<Rightarrow> (Inr (Some t), s2)))
                    | _ \<Rightarrow> (Inl TypeError, s1))))"

text \<open>\<^verbatim>\<open>send_reply\<close>: the writer is the list of bytes written so far.\<close>

definition send_reply :: "bytes \<Rightarrow> ustr \<Rightarrow> exn + bytes" where
  "send_reply w reply =
     (case utf8_encode reply of
        None \<Rightarrow> Inl UnicodeEncodeError
      | Some data \<Rightarrow>
          (case pack_I (length data) of
             Inl x \<Rightarrow> Inl x
           | Inr hdr \<Rightarrow> Inr (w @ hdr @ data)))"

section \<open>Strings\<close>

text \<open>
  \<^verbatim>\<open>str.isspace\<close> for one character, as CPython's whitespace table has it; it decides
  what \<^verbatim>\<open>strip()\<close> and \<^verbatim>\<open>rstrip()\<close> without an argument remove.
\<close>

definition py_isspace :: "codepoint \<Rightarrow> bool" where
  "py_isspace c \<longleftrightarrow>
     (0x09 \<le> c \<and> c \<le> 0x0D) \<or> (0x1C \<le> c \<and> c \<le> 0x20) \<or> c = 0x85 \<or> c = 0xA0
     \<or> c = 0x1680 \<or> (0x2000 \<le> c \<and> c \<le> 0x200A) \<or> c = 0x2028 \<or> c = 0x2029
     \<or> c = 0x202F \<or> c = 0x205F \<or> c = 0x3000"

text \<open>
  \<^verbatim>\<open>s.rstrip(chars)\<close> removes every trailing character that occurs in \<open>chars\<close>
  (the argument is a set of characters, not a suffix); \<^verbatim>\<open>s.rstrip()\<close> and
  \<^verbatim>\<open>s.strip()\<close> remove whitespace.
\<close>

definition rstrip_chars :: "ustr \<Rightarrow> ustr \<Rightarrow> ustr" where
  "rstrip_chars chars s = rev (dropWhile (\<lambda>c. c \<in> set chars) (rev s))"

definition rstrip :: "ustr \<Rightarrow> ustr" where
  "rstrip s = rev (dropWhile py_isspace (rev s))"

definition strip :: "ustr \<Rightarrow> ustr" where
  "strip s = dropWhile py_isspace (rstrip s)"

text \<open>\<^verbatim>\<open>s.split(sep, maxsplit)\<close> for a separator of one character.\<close>

fun py_split :: "codepoint \<Rightarrow> nat \<Rightarrow> ustr \<Rightarrow> ustr list" where
  "py_split sep 0 s = [s]"
| "py_split sep (Suc k) s =
     (if sep \<in> set s
      then takeWhile (\<lambda>c. c \<noteq> sep) s # py_split sep k (tl (dropWhile (\<lambda>c. c \<noteq> sep) s))
      else [s])"

text \<open>
  \<^verbatim>\<open>unicodedata.name(c).split(' ')[0]\<close>: the first word of a character name. Names
  are ASCII and modelled as \<open>string\<close>.
\<close>

definition alphabet_of :: "string \<Rightarrow> string" where
  "alphabet_of n = takeWhile (\<lambda>ch. ch \<noteq> CHR '' '') n"

section \<open>The environment\<close>

text \<open>
  The libraries and the database the daemon calls are not part of the repository; they
  are parameters of the model. \<open>uname\<close> is \<^verbatim>\<open>unicodedata.name\<close> (\<open>None\<close> where it
  raises \<^verbatim>\<open>ValueError\<close>: the code point has no name); the engines return text or
  raise; \<open>geo_ready\<close> is \<^verbatim>\<open>co2c.ready\<close> and \<open>geo_backend\<close> the \<^verbatim>\<open>getCountry\<close>
  of the selected backend (the PostgreSQL one exits the process on a query error, the
  SQLite one lets the error through).
\<close>

record env =
  uname :: "codepoint \<Rightarrow> string option"
  th2roman :: "ustr \<Rightarrow> exn + ustr"
  jyutping :: "ustr \<Rightarrow> exn + ustr"
  kakasi_convert :: "ustr \<Rightarrow> exn + ustr list"
  capitalize :: "ustr \<Rightarrow> ustr"
  icutr :: "ustr \<Rightarrow> exn + ustr"
  nfc :: "ustr \<Rightarrow> ustr"
  geo_ready :: bool
  geo_backend :: "ustr \<Rightarrow> ustr \<Rightarrow> exn + ustr"

section \<open>Splitting by alphabet\<close>

fun split_loop ::
  "(codepoint \<Rightarrow> string option) \<Rightarrow> ustr list \<Rightarrow> ustr \<Rightarrow> string \<Rightarrow> ustr \<Rightarrow> exn + ustr list"
where
  "split_loop nm strlist target oldalphabet [] = Inr (strlist @ [target])"
| "split_loop nm strlist target oldalphabet (c # cs) =
     (case nm c of
        None \<Rightarrow> Inl ValueError
      | Some n \<Rightarrow>
          (let alphabet = alphabet_of n in
           if alphabet = oldalphabet
           then split_loop nm strlist (target @ [c]) alphabet cs
           else split_loop nm (strlist @ [target]) [c] alphabet cs))"

definition split_by_alphabet :: "(codepoint \<Rightarrow> string option) \<Rightarrow> ustr \<Rightarrow> exn + ustr list" where
  "split_by_alphabet nm str =
     (case str of
        [] \<Rightarrow> Inl IndexError
      | c # cs \<Rightarrow>
          (case nm c of
             None \<Rightarrow> Inl ValueError
           | Some n \<Rightarrow> split_loop nm [] [c] (alphabet_of n) cs))"

section \<open>Transcription strategies\<close>

text \<open>
  A strategy returns \<open>Inr (Some text)\<close>, \<open>Inr None\<close> for Python's \<^verbatim>\<open>None\<close>, or
  \<open>Inl x\<close> when an exception leaves it, together with what it wrote to standard error.
\<close>

type_synonym reply = "(exn + ustr option) \<times> log_entry list"

fun thai_loop :: "env \<Rightarrow> ustr \<Rightarrow> ustr list \<Rightarrow> reply" where
  "thai_loop e latin [] = (Inr (Some latin), [])"
| "thai_loop e latin (st # sts) =
     (case st of
        [] \<Rightarrow> (Inl IndexError, [])
      | c # _ \<Rightarrow>
          (case uname e c of
             None \<Rightarrow> (Inl ValueError, [])
           | Some n \<Rightarrow>
               if alphabet_of n = ''THAI'' then
                 (case th2roman e st of
                    Inl _ \<Rightarrow> (Inr None, [TltkError st])
                  | Inr t \<Rightarrow>
                      thai_loop e (latin @ rstrip (rstrip_chars (ustr_of ''<s/>'') t)) sts)
               else thai_loop e (latin @ st) sts))"

definition thai_transcript :: "env \<Rightarrow> ustr \<Rightarrow> reply" where
  "thai_transcript e inpstr =
     (case split_by_alphabet (uname e) inpstr of
        Inl x \<Rightarrow> (Inl x, [])
      | Inr stlist \<Rightarrow> thai_loop e [] stlist)"

fun cantonese_loop :: "env \<Rightarrow> ustr \<Rightarrow> ustr list \<Rightarrow> reply" where
  "cantonese_loop e latin [] = (Inr (Some latin), [])"
| "cantonese_loop e latin (st # sts) =
     (case st of
        [] \<Rightarrow> (Inl IndexError, [])
      | c # _ \<Rightarrow>
          (case uname e c of
             None \<Rightarrow> (Inl ValueError, [])
           | Some n \<Rightarrow>
               if alphabet_of n = ''CJK'' then
                 (case jyutping e st of
                    Inl _ \<Rightarrow> (Inr None, [JyutpingError st])
                  | Inr t \<Rightarrow> cantonese_loop e (latin @ t) sts)
               else cantonese_loop e (latin @ st) sts))"

definition cantonese_transcript :: "env \<Rightarrow> ustr \<Rightarrow> reply" where
  "cantonese_transcript e inpstr =
     (case split_by_alphabet (uname e) inpstr of
        Inl x \<Rightarrow> (Inl x, [])
      | Inr stlist \<Rightarrow> cantonese_loop e [] stlist)"

text \<open>The Japanese branch of \<^verbatim>\<open>transcriptor.transcript\<close>; \<open>kakasi_convert\<close> gives the
  \<^verbatim>\<open>'hepburn'\<close> fields of the converter's result.\<close>

fun jp_loop :: "env \<Rightarrow> ustr \<Rightarrow> ustr list \<Rightarrow> ustr" where
  "jp_loop e out [] = out"
| "jp_loop e out (w # ws) =
     (let h = strip w in
      if length h > 0 then jp_loop e (out @ capitalize e h @ [0x20]) ws
      else jp_loop e out ws)"

definition transcript :: "env \<Rightarrow> ustr \<Rightarrow> ustr \<Rightarrow> reply" where
  "transcript e country unistr =
     (if country = ustr_of ''jp'' then
        (case kakasi_convert e unistr of
           Inl x \<Rightarrow> (Inl x, [])
         | Inr kanji \<Rightarrow> (Inr (Some (strip (jp_loop e [] kanji))), []))
      else if country = ustr_of ''th'' then thai_transcript e unistr
      else if country \<in> set [ustr_of ''mo'', ustr_of ''hk''] then cantonese_transcript e unistr
      else
        (case icutr e unistr of
           Inl x \<Rightarrow> (Inl x, [])
         | Inr t \<Rightarrow> (Inr (Some (nfc e t)), [])))"

section \<open>Script classification and country lookup\<close>

fun contains_thai :: "ustr \<Rightarrow> bool" where
  "contains_thai [] = False"
| "contains_thai (c # cs) = (if c > 0x0E00 \<and> c < 0x0E7F then True else contains_thai cs)"

fun contains_cjk :: "ustr \<Rightarrow> bool" where
  "contains_cjk [] = False"
| "contains_cjk (c # cs) = (if c > 0x4e00 \<and> c < 0x9FFF then True else contains_cjk cs)"

text \<open>
  \<^verbatim>\<open>Coord2Country.getCountry\<close>: the second component lists the queries sent to the
  backend.
\<close>

definition getCountry :: "env \<Rightarrow> ustr \<Rightarrow> ustr \<Rightarrow> (exn + ustr) \<times> (ustr \<times> ustr) list" where
  "getCountry e lon lat =
     (if lat = [] \<and> lon = [] then (Inr [], [])
      else (geo_backend e lon lat, [(lon, lat)]))"

section \<open>The connection handler\<close>

text \<open>
  The state of one connection: the bytes still to be read from the peer, the bytes
  written to it, standard error, and the queries sent to the country backend.
\<close>

record conn =
  inp :: bytes
  outp :: bytes
  stderr :: "log_entry list"
  queries :: "(ustr \<times> ustr) list"

text \<open>
  One pass of the loop of \<^verbatim>\<open>handle_connection\<close> either goes on to the next request,
  returns (the connection was closed), or is left by an exception.
\<close>

datatype outcome = Continue conn | Closed conn | Crashed exn conn

fun conn_of :: "outcome \<Rightarrow> conn" where
  "conn_of (Continue st) = st"
| "conn_of (Closed st) = st"
| "conn_of (Crashed x st) = st"

text \<open>
  Lines 270 to 285: the payload is split and unpacked into \<open>(id, cc, name)\<close>. The
  tuple assignment raises \<^verbatim>\<open>ValueError\<close> when the number of fields does not match.
\<close>

definition parse_request ::
  "env \<Rightarrow> ustr \<Rightarrow> (exn + ustr \<times> ustr \<times> ustr) \<times> (ustr \<times> ustr) list" where
  "parse_request e data =
     (let qs = py_split 0x2F 3 data in
      if length qs = 3 then
        (case qs of
           [ident, cc, name] \<Rightarrow> (Inr (ident, cc, name), [])
         | _ \<Rightarrow> (Inl ValueError, []))
      else
        (case qs of
           [ident, lon, lat, name] \<Rightarrow>
             if geo_ready e then
               if contains_cjk name then
                 (case getCountry e lon lat of
                    (Inl x, q) \<Rightarrow> (Inl x, q)
                  | (Inr cc, q) \<Rightarrow> (Inr (ident, cc, name), q))
               else if contains_thai name then (Inr (ident, ustr_of ''th'', name), [])
               else (Inr (ident, [], name), [])
             else (Inr (ident, [], name), [])
         | _ \<Rightarrow> (Inl ValueError, [])))"

text \<open>The handler \<^verbatim>\<open>except BaseException\<close> of lines 298 to 300.\<close>

definition on_error :: "conn \<Rightarrow> ustr \<Rightarrow> exn \<Rightarrow> outcome" where
  "on_error st ident x =
     (let st1 = st\<lparr>stderr := stderr st @ [RequestError ident x]\<rparr> in
      case send_reply (outp st1) [] of
        Inr w \<Rightarrow> Continue (st1\<lparr>outp := w\<rparr>)
      | Inl y \<Rightarrow> Crashed y st1)"

text \<open>Lines 287 to 300: transcribe and reply, inside the \<^verbatim>\<open>try\<close> block.\<close>

definition respond :: "env \<Rightarrow> conn \<Rightarrow> ustr \<Rightarrow> ustr \<Rightarrow> ustr \<Rightarrow> outcome" where
  "respond e st ident cc name =
     (case (if name \<noteq> [] then transcript e cc name else (Inr (Some []), [])) of
        (r, lg) \<Rightarrow>
          (let st1 = st\<lparr>stderr := stderr st @ lg\<rparr> in
           case r of
             Inl x \<Rightarrow> on_error st1 ident x
           | Inr (Some text) \<Rightarrow>
               (case send_reply (outp st1) text of
                  Inr w \<Rightarrow> Continue (st1\<lparr>outp := w\<rparr>)
                | Inl x \<Rightarrow> on_error st1 ident x)
           | Inr None \<Rightarrow>
               (let st2 = st1\<lparr>stderr := stderr st1 @ [NonString ident cc name]\<rparr> in
                case send_reply (outp st2) [] of
                  Inr w \<Rightarrow> Continue (st2\<lparr>outp := w\<rparr>)
                | Inl x \<Rightarrow> on_error st2 ident x)))"

text \<open>One pass of the \<^verbatim>\<open>while True\<close> loop.\<close>

definition serve_one :: "env \<Rightarrow> conn \<Rightarrow> outcome" where
  "serve_one e st =
     (case read_request (inp st) of
        (Inl x, rest) \<Rightarrow> Crashed x (st\<lparr>inp := rest\<rparr>)
      | (Inr None, rest) \<Rightarrow> Closed (st\<lparr>inp := rest\<rparr>)
      | (Inr (Some data), rest) \<Rightarrow>
          (case parse_request e data of
             (Inl x, q) \<Rightarrow> Crashed x (st\<lparr>inp := rest, queries := queries st @ q\<rparr>)
           | (Inr (ident, cc, name), q) \<Rightarrow>
               respond e (st\<lparr>inp := rest, queries := queries st @ q\<rparr>) ident cc name))"

function handle_connection :: "env \<Rightarrow> conn \<Rightarrow> outcome" where
  "handle_connection e st =
     (case serve_one e st of
        Continue st' \<Rightarrow> handle_connection e st'
      | Closed st' \<Rightarrow> Closed st'
      | Crashed x st' \<Rightarrow> Crashed x st')"
  by pat_completeness auto
termination
proof (relation "measure (\<lambda>(e, st). length (inp st))")
  show "wf (measure (\<lambda>(e, st). length (inp st)))" by simp
next
  fix e :: env and st st' :: conn
  assume c: "serve_one e st = Continue st'"
  obtain r rest where rd: "read_request (inp st) = (r, rest)" by (cases "read_request (inp st)")
  have resp: "\<And>s i c n s'. respond e s i c n = Continue s' \<Longrightarrow> inp s' = inp s"
    by (auto simp: respond_def on_error_def Let_def split: prod.splits sum.splits option.splits)
  from c rd obtain data where r: "r = Inr (Some data)" and i: "inp st' = rest"
    by (auto simp: serve_one_def split: sum.splits option.splits prod.splits dest!: resp)
  have "length rest < length (inp st)"
    using rd unfolding r read_request_def readexactly_def
    by (auto split: if_splits sum.splits option.splits pyval.splits list.splits)
  then show "((e, st'), (e, st)) \<in> measure (\<lambda>(e, st). length (inp st))"
    using i by simp
qed

declare handle_connection.simps [simp del]

section \<open>Notions of the specification\<close>

text \<open>The Thai block of Unicode is U+0E00 to U+0E7F; the block of CJK unified ideographs,
  which the comment above \<^verbatim>\<open>contains_cjk\<close> names, is U+4E00 to U+9FFF.\<close>

definition thai_block :: "codepoint \<Rightarrow> bool" where
  "thai_block c \<longleftrightarrow> 0x0E00 \<le> c \<and> c \<le> 0x0E7F"

definition cjk_block :: "codepoint \<Rightarrow> bool" where
  "cjk_block c \<longleftrightarrow> 0x4E00 \<le> c \<and> c \<le> 0x9FFF"

text \<open>The maximal runs of a list under a key: each run is the longest stretch of
  neighbours with the key of its first element.\<close>

function maximal_runs :: "('a \<Rightarrow> 'b) \<Rightarrow> 'a list \<Rightarrow> 'a list list" where
  "maximal_runs f [] = []"
| "maximal_runs f (x # xs) =
     (x # takeWhile (\<lambda>y. f y = f x) xs) # maximal_runs f (dropWhile (\<lambda>y. f y = f x) xs)"
  by pat_completeness auto
termination
  by (relation "measure (\<lambda>(f, xs). length xs)") (auto simp: length_dropWhile_le less_Suc_eq_le)

definition char_alphabet :: "env \<Rightarrow> codepoint \<Rightarrow> string option" where
  "char_alphabet e c = map_option alphabet_of (uname e c)"

definition run_alphabet :: "env \<Rightarrow> ustr \<Rightarrow> string option" where
  "run_alphabet e st = (case st of [] \<Rightarrow> None | c # _ \<Rightarrow> char_alphabet e c)"






section \<open>A small environment for concrete runs\<close>

text \<open>A fragment of the table of character names, an engine that knows one Thai
  letter, and a country backend that answers \<^verbatim>\<open>jp\<close>.\<close>

definition demo_names :: "codepoint \<Rightarrow> string option" where
  "demo_names c =
     (if 0x0E01 \<le> c \<and> c \<le> 0x0E2E then Some ''THAI CHARACTER''
      else if 0x4E00 \<le> c \<and> c \<le> 0x9FFF then Some ''CJK UNIFIED IDEOGRAPH''
      else if 0x41 \<le> c \<and> c \<le> 0x5A then Some ''LATIN CAPITAL LETTER''
      else if 0x61 \<le> c \<and> c \<le> 0x7A then Some ''LATIN SMALL LETTER''
      else if c = 0x20 then Some ''SPACE''
      else None)"

definition demo_env :: env where
  "demo_env =
     \<lparr>uname = demo_names,
      th2roman = (\<lambda>s. if s = [0x0E01] then Inr (ustr_of ''ko <s/>'') else Inl EngineError),
      jyutping = (\<lambda>s. Inl EngineError),
      kakasi_convert = (\<lambda>s. Inr []),
      capitalize = (\<lambda>s. s),
      icutr = Inr,
      nfc = (\<lambda>s. s),
      geo_ready = True,
      geo_backend = (\<lambda>lon lat. Inr (ustr_of ''jp''))\<rparr>"

section \<open>Framing lemmas\<close>





















section \<open>Lemmas about the handler\<close>

lemma send_reply_empty: "send_reply w [] = Inr (w @ [0, 0, 0, 0])"
  by (simp add: send_reply_def pack_I_def le_bytes4_def)

lemma contains_thai_iff: "contains_thai s \<longleftrightarrow> (\<exists>c\<in>set s. 0x0E00 < c \<and> c < 0x0E7F)"
  by (induction s) auto

lemma contains_cjk_iff: "contains_cjk s \<longleftrightarrow> (\<exists>c\<in>set s. 0x4E00 < c \<and> c < 0x9FFF)"
  by (induction s) auto

lemma parse_request_3: 
  "py_split 0x2F 3 data = [ident, cc, name] \<Longrightarrow> parse_request e data = (Inr (ident, cc, name), [])"
  by (simp add: parse_request_def)

lemma parse_request_4:
  "py_split 0x2F 3 data = [ident, lon, lat, name] \<Longrightarrow>
   parse_request e data =
     (if geo_ready e then
        if contains_cjk name then
          (case getCountry e lon lat of
             (Inl x, q) \<Rightarrow> (Inl x, q)
           | (Inr cc, q) \<Rightarrow> (Inr (ident, cc, name), q))
        else if contains_thai name then (Inr (ident, ustr_of ''th'', name), [])
        else (Inr (ident, [], name), [])
      else (Inr (ident, [], name), []))"
  by (simp add: parse_request_def)

lemma parse_request_other:
  assumes "length (py_split 0x2F 3 data) \<noteq> 3" and "length (py_split 0x2F 3 data) \<noteq> 4"
  shows "parse_request e data = (Inl ValueError, [])"
proof -
  obtain qs where qs: "py_split 0x2F 3 data = qs" by simp
  have "(case qs of [ident, lon, lat, name] \<Rightarrow> f ident lon lat name | _ \<Rightarrow> d) = d" for f and d :: 'x
    using assms(2) unfolding qs by (auto split: list.splits)
  then show ?thesis using assms(1) by (simp add: parse_request_def qs Let_def)
qed

lemma respond_queries: "queries (conn_of (respond e st ident cc name)) = queries st"
  by (auto simp: respond_def on_error_def Let_def split: prod.splits sum.splits option.splits)

lemma respond_empty_name:
  "respond e st ident cc [] = Continue (st\<lparr>outp := outp st @ [0, 0, 0, 0]\<rparr>)"
  by (simp add: respond_def send_reply_empty)

lemma serve_one_parsed:
  assumes "read_request (inp st) = (Inr (Some data), rest)"
    and "parse_request e data = (Inr (ident, cc, name), q)"
  shows "serve_one e st = respond e (st\<lparr>inp := rest, queries := queries st @ q\<rparr>) ident cc name"
  using assms by (simp add: serve_one_def)

section \<open>Lemmas about run splitting\<close>

lemma split_loop_unnamed:
  "\<exists>c\<in>set cs. nm c = None \<Longrightarrow> split_loop nm sl t old cs = Inl ValueError"
proof (induction cs arbitrary: sl t old)
  case Nil
  then show ?case by simp
next
  case (Cons c cs)
  show ?case
  proof (cases "nm c")
    case None
    then show ?thesis by simp
  next
    case (Some n)
    with Cons.prems have ex: "\<exists>c\<in>set cs. nm c = None" by auto
    show ?thesis
      by (simp add: Some Let_def Cons.IH [OF ex])
  qed
qed

lemma split_by_alphabet_unnamed:
  assumes "s \<noteq> []" and "\<exists>c\<in>set s. nm c = None"
  shows "split_by_alphabet nm s = Inl ValueError"
proof -
  from assms(1) obtain c cs where s: "s = c # cs" by (cases s) auto
  show ?thesis
  proof (cases "nm c")
    case None
    then show ?thesis by (simp add: split_by_alphabet_def s)
  next
    case (Some n)
    with assms(2) s have "\<exists>c\<in>set cs. nm c = None" by auto
    then show ?thesis by (simp add: split_by_alphabet_def s Some split_loop_unnamed)
  qed
qed

lemma maximal_runs_same_key:
  assumes "\<forall>y\<in>set ts. f y = k" and "f t = k"
  shows "maximal_runs f (t # ts) = [t # ts]"
proof -
  have all: "\<forall>y\<in>set ts. f y = f t" by (simp add: assms)
  have tw: "takeWhile (\<lambda>y. f y = f t) ts = ts"
    by (rule takeWhile_eq_all_conv [THEN iffD2]) (rule all)
  have dw: "dropWhile (\<lambda>y. f y = f t) ts = []"
    by (rule dropWhile_eq_Nil_conv [THEN iffD2]) (rule all)
  show ?thesis
    by (subst maximal_runs.simps(2), subst tw, subst dw, subst maximal_runs.simps(1), rule refl)
qed

lemma maximal_runs_new_key:
  assumes "\<forall>y\<in>set ts. f y = k" and "f t = k" and "f c \<noteq> k"
  shows "maximal_runs f ((t # ts) @ c # cs) = (t # ts) # maximal_runs f (c # cs)"
proof -
  have all: "\<And>y. y \<in> set ts \<Longrightarrow> f y = f t" by (simp add: assms)
  have nc: "\<not> f c = f t" by (simp add: assms)
  have "takeWhile (\<lambda>y. f y = f t) (ts @ c # cs) = ts @ takeWhile (\<lambda>y. f y = f t) (c # cs)"
    by (rule takeWhile_append2) (rule all)
  also have "takeWhile (\<lambda>y. f y = f t) (c # cs) = []"
    by (subst takeWhile.simps(2)) (simp only: nc if_False)
  finally have tw: "takeWhile (\<lambda>y. f y = f t) (ts @ c # cs) = ts" by (simp only: append_Nil2)
  have "dropWhile (\<lambda>y. f y = f t) (ts @ c # cs) = dropWhile (\<lambda>y. f y = f t) (c # cs)"
    by (rule dropWhile_append2) (rule all)
  also have "\<dots> = c # cs"
    by (subst dropWhile.simps(2)) (simp only: nc if_False)
  finally have dw: "dropWhile (\<lambda>y. f y = f t) (ts @ c # cs) = c # cs" .
  have "maximal_runs f (t # (ts @ c # cs)) = (t # ts) # maximal_runs f (c # cs)"
    by (subst maximal_runs.simps(2), subst tw, subst dw, rule refl)
  then show ?thesis by (simp only: append_Cons)
qed

lemma split_loop_runs:
  assumes "\<forall>c\<in>set cs. uname e c \<noteq> None"
    and "\<forall>y\<in>set ts. char_alphabet e y = Some old"
    and "char_alphabet e t = Some old"
  shows "split_loop (uname e) sl (t # ts) old cs
           = Inr (sl @ maximal_runs (char_alphabet e) ((t # ts) @ cs))"
  using assms
proof (induction cs arbitrary: sl t ts old)
  case Nil
  have "maximal_runs (char_alphabet e) (t # ts) = [t # ts]"
    by (rule maximal_runs_same_key [OF Nil.prems(2,3)])
  then show ?case by (simp only: split_loop.simps append_Nil2)
next
  case (Cons c cs)
  from Cons.prems(1) obtain n where n: "uname e c = Some n" by auto
  then have kc: "char_alphabet e c = Some (alphabet_of n)" by (simp add: char_alphabet_def)
  have rest: "\<forall>c\<in>set cs. uname e c \<noteq> None" using Cons.prems(1) by simp
  show ?case
  proof (cases "alphabet_of n = old")
    case True
    have same: "\<forall>y\<in>set (ts @ [c]). char_alphabet e y = Some old"
      using Cons.prems(2) kc True by simp
    have "split_loop (uname e) sl (t # ts) old (c # cs)
            = split_loop (uname e) sl ((t # ts) @ [c]) old cs"
      by (simp add: n True)
    also have "\<dots> = split_loop (uname e) sl (t # (ts @ [c])) old cs"
      by (simp only: append_Cons)
    also have "\<dots> = Inr (sl @ maximal_runs (char_alphabet e) ((t # (ts @ [c])) @ cs))"
      by (rule Cons.IH [OF rest same Cons.prems(3)])
    also have "(t # (ts @ [c])) @ cs = (t # ts) @ c # cs"
      by (simp only: append_Cons append_assoc append_Nil)
    finally show ?thesis .
  next
    case False
    have diff: "char_alphabet e c \<noteq> Some old"
      using kc False by simp
    have "split_loop (uname e) sl (t # ts) old (c # cs)
            = split_loop (uname e) (sl @ [t # ts]) [c] (alphabet_of n) cs"
      by (simp add: n False)
    also have "\<dots> = Inr ((sl @ [t # ts]) @ maximal_runs (char_alphabet e) ([c] @ cs))"
    proof (rule Cons.IH [OF rest _ kc])
      show "\<forall>y\<in>set []. char_alphabet e y = Some (alphabet_of n)" by simp
    qed
    also have "(sl @ [t # ts]) @ maximal_runs (char_alphabet e) ([c] @ cs)
        = sl @ ((t # ts) # maximal_runs (char_alphabet e) (c # cs))"
      by (simp only: append_assoc append_Cons append_Nil)
    also have "(t # ts) # maximal_runs (char_alphabet e) (c # cs)
        = maximal_runs (char_alphabet e) ((t # ts) @ c # cs)"
      by (rule maximal_runs_new_key [OF Cons.prems(2,3) diff, symmetric])
    finally show ?thesis .
  qed
qed

lemma split_by_alphabet_runs:
  assumes "s \<noteq> []" and "\<forall>c\<in>set s. uname e c \<noteq> None"
  shows "split_by_alphabet (uname e) s = Inr (maximal_runs (char_alphabet e) s)"
proof -
  from assms(1) obtain c cs where s: "s = c # cs" by (cases s) auto
  from assms(2) s obtain n where n: "uname e c = Some n" by auto
  have kc: "char_alphabet e c = Some (alphabet_of n)" by (simp add: char_alphabet_def n)
  have rest: "\<forall>c\<in>set cs. uname e c \<noteq> None" using assms(2) s by simp
  have emp: "\<forall>y\<in>set []. char_alphabet e y = Some (alphabet_of n)" by simp
  have "split_loop (uname e) [] (c # []) (alphabet_of n) cs
          = Inr ([] @ maximal_runs (char_alphabet e) ((c # []) @ cs))"
    by (rule split_loop_runs [OF rest emp kc])
  then have "split_loop (uname e) [] [c] (alphabet_of n) cs
          = Inr (maximal_runs (char_alphabet e) (c # cs))"
    by (simp only: append_Nil append_Cons)
  then show ?thesis
    by (simp only: split_by_alphabet_def s list.case n option.case)
qed

lemma split_by_alphabet_Inr:
  assumes "split_by_alphabet (uname e) s = Inr runs"
  shows "s \<noteq> [] \<and> (\<forall>c\<in>set s. uname e c \<noteq> None) \<and> runs = maximal_runs (char_alphabet e) s"
proof -
  have ne: "s \<noteq> []" using assms by (auto simp: split_by_alphabet_def)
  have nm: "\<forall>c\<in>set s. uname e c \<noteq> None"
  proof (rule ccontr)
    assume "\<not> (\<forall>c\<in>set s. uname e c \<noteq> None)"
    then have "\<exists>c\<in>set s. uname e c = None" by simp
    from split_by_alphabet_unnamed [OF ne this] assms show False by simp
  qed
  have "runs = maximal_runs (char_alphabet e) s"
    using split_by_alphabet_runs [OF ne nm] assms by (simp del: maximal_runs.simps)
  then show ?thesis using ne nm by blast
qed


lemma maximal_runs_nonempty: "r \<in> set (maximal_runs f s) \<Longrightarrow> r \<noteq> [] \<and> set r \<subseteq> set s"
proof (induction f s rule: maximal_runs.induct)
  case (1 f)
  then show ?case by simp
next
  case (2 f x xs)
  from "2.prems" have "r \<in> set ((x # takeWhile (\<lambda>y. f y = f x) xs)
        # maximal_runs f (dropWhile (\<lambda>y. f y = f x) xs))"
    by (simp only: maximal_runs.simps)
  then consider "r = x # takeWhile (\<lambda>y. f y = f x) xs"
    | "r \<in> set (maximal_runs f (dropWhile (\<lambda>y. f y = f x) xs))"
    by (auto simp del: maximal_runs.simps)
  then show ?case
  proof cases
    case 1
    have "set (takeWhile (\<lambda>y. f y = f x) xs) \<subseteq> set xs" by (auto dest: set_takeWhileD)
    then show ?thesis unfolding 1 by auto
  next
    case 2
    have "set (dropWhile (\<lambda>y. f y = f x) xs) \<subseteq> set xs" by (auto dest: set_dropWhileD)
    with "2.IH" [OF 2] show ?thesis by auto
  qed
qed

lemma runs_heads_named:
  assumes "\<forall>c\<in>set s. uname e c \<noteq> None" and "r \<in> set (maximal_runs (char_alphabet e) s)"
  shows "\<exists>c cs n. r = c # cs \<and> uname e c = Some n"
proof -
  from maximal_runs_nonempty [OF assms(2)] have "r \<noteq> []" and sub: "set r \<subseteq> set s" by simp_all
  then obtain c cs where r: "r = c # cs" by (cases r) auto
  with sub have "c \<in> set s" by auto
  with assms(1) obtain n where "uname e c = Some n" by auto
  with r show ?thesis by blast
qed

section \<open>Lemmas about the strategies\<close>


lemma thai_loop_fails:
  assumes "\<forall>r\<in>set runs. \<exists>c cs n. r = c # cs \<and> uname e c = Some n"
    and "\<exists>r\<in>set runs. run_alphabet e r = Some ''THAI'' \<and> isl (th2roman e r)"
  shows "\<exists>r\<in>set runs. thai_loop e latin runs = (Inr None, [TltkError r])"
  using assms
proof (induction runs arbitrary: latin)
  case Nil
  then show ?case by simp
next
  case (Cons r runs)
  from Cons.prems(1) obtain c cs n where r: "r = c # cs" and n: "uname e c = Some n" by auto
  have ra: "run_alphabet e r = Some (alphabet_of n)"
    by (simp add: run_alphabet_def char_alphabet_def r n)
  have named: "\<forall>r\<in>set runs. \<exists>c cs n. r = c # cs \<and> uname e c = Some n"
    using Cons.prems(1) by simp
  show ?case
  proof (cases "alphabet_of n = ''THAI'' \<and> isl (th2roman e r)")
    case True
    then obtain x where "th2roman e r = Inl x" by (cases "th2roman e r") auto
    then show ?thesis using True n by (simp add: r)
  next
    case False
    with Cons.prems(2) ra have "\<exists>r\<in>set runs. run_alphabet e r = Some ''THAI'' \<and> isl (th2roman e r)"
      by auto
    from Cons.IH [OF named this]
    have ih: "\<And>l. \<exists>r\<in>set runs. thai_loop e l runs = (Inr None, [TltkError r])" by blast
    show ?thesis
    proof (cases "alphabet_of n = ''THAI''")
      case True
      with False obtain t where t: "th2roman e r = Inr t" by (cases "th2roman e r") auto
      show ?thesis
        using ih [of "latin @ rstrip (rstrip_chars (ustr_of ''<s/>'') t)"] True t n
        by (auto simp: r)
    next
      case F: False
      show ?thesis using ih [of "latin @ r"] F n by (auto simp: r)
    qed
  qed
qed

lemma cantonese_loop_fails:
  assumes "\<forall>r\<in>set runs. \<exists>c cs n. r = c # cs \<and> uname e c = Some n"
    and "\<exists>r\<in>set runs. run_alphabet e r = Some ''CJK'' \<and> isl (jyutping e r)"
  shows "\<exists>r\<in>set runs. cantonese_loop e latin runs = (Inr None, [JyutpingError r])"
  using assms
proof (induction runs arbitrary: latin)
  case Nil
  then show ?case by simp
next
  case (Cons r runs)
  from Cons.prems(1) obtain c cs n where r: "r = c # cs" and n: "uname e c = Some n" by auto
  have ra: "run_alphabet e r = Some (alphabet_of n)"
    by (simp add: run_alphabet_def char_alphabet_def r n)
  have named: "\<forall>r\<in>set runs. \<exists>c cs n. r = c # cs \<and> uname e c = Some n"
    using Cons.prems(1) by simp
  show ?case
  proof (cases "alphabet_of n = ''CJK'' \<and> isl (jyutping e r)")
    case True
    then obtain x where "jyutping e r = Inl x" by (cases "jyutping e r") auto
    then show ?thesis using True n by (simp add: r)
  next
    case False
    with Cons.prems(2) ra have "\<exists>r\<in>set runs. run_alphabet e r = Some ''CJK'' \<and> isl (jyutping e r)"
      by auto
    from Cons.IH [OF named this]
    have ih: "\<And>l. \<exists>r\<in>set runs. cantonese_loop e l runs = (Inr None, [JyutpingError r])" by blast
    show ?thesis
    proof (cases "alphabet_of n = ''CJK''")
      case True
      with False obtain t where t: "jyutping e r = Inr t" by (cases "jyutping e r") auto
      show ?thesis using ih [of "latin @ t"] True t n by (auto simp: r)
    next
      case F: False
      show ?thesis using ih [of "latin @ r"] F n by (auto simp: r)
    qed
  qed
qed

lemma thai_loop_None:
  "fst (thai_loop e latin runs) = Inr None \<Longrightarrow> snd (thai_loop e latin runs) \<noteq> []"
  by (induction runs arbitrary: latin)
     (auto split: list.splits option.splits sum.splits if_splits)

lemma cantonese_loop_None:
  "fst (cantonese_loop e latin runs) = Inr None \<Longrightarrow> snd (cantonese_loop e latin runs) \<noteq> []"
  by (induction runs arbitrary: latin)
     (auto split: list.splits option.splits sum.splits if_splits)

lemma transcript_None:
  "fst (transcript e cc name) = Inr None \<Longrightarrow> snd (transcript e cc name) \<noteq> []"
  by (auto simp: transcript_def thai_transcript_def cantonese_transcript_def
        thai_loop_None cantonese_loop_None
      split: sum.splits if_splits)

lemma respond_None:
  assumes "name \<noteq> []" and "transcript e cc name = (Inr None, lg)"
  shows "respond e st ident cc name =
     Continue (st\<lparr>stderr := stderr st @ lg @ [NonString ident cc name],
                 outp := outp st @ [0, 0, 0, 0]\<rparr>)"
  using assms by (simp add: respond_def send_reply_empty)

lemma respond_raise:
  assumes "name \<noteq> []" and "transcript e cc name = (Inl x, lg)"
  shows "respond e st ident cc name =
     Continue (st\<lparr>stderr := stderr st @ lg @ [RequestError ident x],
                 outp := outp st @ [0, 0, 0, 0]\<rparr>)"
  using assms by (simp add: respond_def on_error_def send_reply_empty)

lemma country_codes_distinct:
  "ustr_of ''th'' \<noteq> ustr_of ''jp''" "ustr_of ''mo'' \<noteq> ustr_of ''jp''"
  "ustr_of ''hk'' \<noteq> ustr_of ''jp''" "ustr_of ''mo'' \<noteq> ustr_of ''th''"
  "ustr_of ''hk'' \<noteq> ustr_of ''th''"
  by (simp_all add: ustr_of_def)

lemma transcript_th: "transcript e (ustr_of ''th'') name = thai_transcript e name"
  by (simp add: transcript_def country_codes_distinct)

lemma transcript_mo_hk:
  "cc = ustr_of ''mo'' \<or> cc = ustr_of ''hk'' \<Longrightarrow> transcript e cc name = cantonese_transcript e name"
  by (auto simp: transcript_def country_codes_distinct)

lemma thai_transcript_fails:
  assumes "split_by_alphabet (uname e) name = Inr runs"
    and "\<exists>r\<in>set runs. run_alphabet e r = Some ''THAI'' \<and> isl (th2roman e r)"
  shows "\<exists>r\<in>set runs. thai_transcript e name = (Inr None, [TltkError r])"
proof -
  from split_by_alphabet_Inr [OF assms(1)]
  have nm: "\<forall>c\<in>set name. uname e c \<noteq> None"
    and runs: "runs = maximal_runs (char_alphabet e) name" by simp_all
  have named: "\<forall>r\<in>set runs. \<exists>c cs n. r = c # cs \<and> uname e c = Some n"
    unfolding runs using runs_heads_named [OF nm] by blast
  from thai_loop_fails [OF named assms(2), of "[]"] show ?thesis
    by (simp add: thai_transcript_def assms(1))
qed

lemma cantonese_transcript_fails:
  assumes "split_by_alphabet (uname e) name = Inr runs"
    and "\<exists>r\<in>set runs. run_alphabet e r = Some ''CJK'' \<and> isl (jyutping e r)"
  shows "\<exists>r\<in>set runs. cantonese_transcript e name = (Inr None, [JyutpingError r])"
proof -
  from split_by_alphabet_Inr [OF assms(1)]
  have nm: "\<forall>c\<in>set name. uname e c \<noteq> None"
    and runs: "runs = maximal_runs (char_alphabet e) name" by simp_all
  have named: "\<forall>r\<in>set runs. \<exists>c cs n. r = c # cs \<and> uname e c = Some n"
    unfolding runs using runs_heads_named [OF nm] by blast
  from cantonese_loop_fails [OF named assms(2), of "[]"] show ?thesis
    by (simp add: cantonese_transcript_def assms(1))
qed









section \<open>Claims\<close>

subsection \<open>C1: a request with a wrong number of fields\<close>

text \<open>
  C1 says that a payload whose split on \<^verbatim>\<open>/\<close> gives neither 3 nor 4 fields is a failure
  of that request only: logged, answered with the empty string, the connection going on
  with the next request. The tuple assignment of line 274 stands before the \<^verbatim>\<open>try\<close>
  block, so its \<^verbatim>\<open>ValueError\<close> leaves \<^verbatim>\<open>handle_connection\<close>. On the payload
  \<^verbatim>\<open>1/foo\<close> (two fields), whatever follows on the stream: nothing is written, nothing
  is logged, the handler ends with the exception and the rest is never read.
\<close>

theorem two_field_request_crashes:
  "read_request ([5, 0, 0, 0] @ [49, 47, 102, 111, 111] @ rest) = (Inr (Some (ustr_of ''1/foo'')), rest)
   \<and> py_split 0x2F 3 (ustr_of ''1/foo'') = [ustr_of ''1'', ustr_of ''foo'']
   \<and> handle_connection e
        \<lparr>inp = [5, 0, 0, 0] @ [49, 47, 102, 111, 111] @ rest, outp = w, stderr = lg, queries = q\<rparr>
       = Crashed ValueError \<lparr>inp = rest, outp = w, stderr = lg, queries = q\<rparr>"
proof -
  have r: "read_request (5 # 0 # 0 # 0 # 49 # 47 # 102 # 111 # 111 # rest)
      = (Inr (Some (ustr_of ''1/foo'')), rest)"
    by (simp add: read_request_def readexactly_def ustr_of_def)
  have s: "py_split 0x2F 3 (ustr_of ''1/foo'') = [ustr_of ''1'', ustr_of ''foo'']"
    by (simp add: ustr_of_def numeral_3_eq_3)
  have p: "parse_request e (ustr_of ''1/foo'') = (Inl ValueError, [])"
    by (simp add: parse_request_def s)
  have h: "handle_connection e
        \<lparr>inp = 5 # 0 # 0 # 0 # 49 # 47 # 102 # 111 # 111 # rest, outp = w, stderr = lg, queries = q\<rparr>
       = Crashed ValueError \<lparr>inp = rest, outp = w, stderr = lg, queries = q\<rparr>"
    by (simp add: r p handle_connection.simps serve_one_def)
  show ?thesis using r s h by simp
qed

subsection \<open>C2: a frame of length zero\<close>

text \<open>
  C2 says that a frame whose length prefix is 0 ends the connection cleanly, without an
  error and without processing a request. In \<^verbatim>\<open>read_request\<close> the test
  \<^verbatim>\<open>length == 0\<close> compares the tuple that \<^verbatim>\<open>struct.unpack\<close> returns with an
  integer and never holds: the frame is read as the empty payload, which has one field,
  and the tuple assignment of line 274 raises \<^verbatim>\<open>ValueError\<close> out of the handler.
\<close>

theorem zero_length_frame_crashes:
  "read_request (0 # 0 # 0 # 0 # rest) = (Inr (Some []), rest)
   \<and> handle_connection e \<lparr>inp = 0 # 0 # 0 # 0 # rest, outp = w, stderr = lg, queries = q\<rparr>
       = Crashed ValueError \<lparr>inp = rest, outp = w, stderr = lg, queries = q\<rparr>"
proof -
  have r: "read_request (0 # 0 # 0 # 0 # rest) = (Inr (Some []), rest)"
    by (simp add: read_request_def readexactly_def)
  have p: "parse_request e [] = (Inl ValueError, [])"
    by (simp add: parse_request_def numeral_3_eq_3)
  show ?thesis
    by (simp add: r p handle_connection.simps serve_one_def)
qed

subsection \<open>C3: names with CJK characters\<close>

text \<open>
  C3 says that for a request with coordinates, a ready resolver and a name containing a
  character of the CJK block, the resolver is queried and its result is the country
  code. \<^verbatim>\<open>contains_cjk\<close> tests \<^verbatim>\<open>ord(c) > 0x4e00\<close> where its comment gives the
  range as 0x4e00-0x9FFF, so the first ideograph U+4E00 is not recognised: for the name
  made of that character the country code is empty and no query is sent.
\<close>

theorem cjk_first_ideograph_not_queried:
  "cjk_block 0x4E00
   \<and> py_split 0x2F 3 (ustr_of ''1/139.6/35.6/'' @ [0x4E00])
       = [ustr_of ''1'', ustr_of ''139.6'', ustr_of ''35.6'', [0x4E00]]
   \<and> parse_request (e\<lparr>geo_ready := True\<rparr>) (ustr_of ''1/139.6/35.6/'' @ [0x4E00])
       = (Inr (ustr_of ''1'', [], [0x4E00]), [])"
proof -
  have s: "py_split 0x2F 3 (ustr_of ''1/139.6/35.6/'' @ [0x4E00])
       = [ustr_of ''1'', ustr_of ''139.6'', ustr_of ''35.6'', [0x4E00]]"
    by (simp add: ustr_of_def numeral_3_eq_3)
  show ?thesis
    using s by (simp add: parse_request_4 [OF s] cjk_block_def)
qed

subsection \<open>C4: names with Thai characters\<close>

text \<open>
  C4, as amended: for every request with coordinates and a ready resolver whose name
  contains a code point strictly between U+0E00 and U+0E7F (every assigned Thai
  character, U+0E01 to U+0E5B, is one) and no character of the CJK block, the country
  code is exactly \<^verbatim>\<open>th\<close> and no query is sent to the resolver.
\<close>

theorem thai_name_resolves_to_th:
  assumes "geo_ready e"
    and "py_split 0x2F 3 data = [ident, lon, lat, name]"
    and "\<exists>c\<in>set name. 0x0E00 < c \<and> c < 0x0E7F"
    and "\<forall>c\<in>set name. \<not> cjk_block c"
  shows "parse_request e data = (Inr (ident, ustr_of ''th'', name), [])"
proof -
  have t: "contains_thai name" using assms(3) by (simp add: contains_thai_iff)
  have "\<not> contains_cjk name"
    using assms(4) unfolding contains_cjk_iff cjk_block_def by fastforce
  then show ?thesis using assms(1) t by (simp add: parse_request_4 [OF assms(2)])
qed

text \<open>The request \<^verbatim>\<open>1/100.5/13.7/\<close> followed by U+0E01 and \<^verbatim>\<open>a\<close>.\<close>

theorem thai_name_resolves_to_th_witness:
  "geo_ready demo_env
   \<and> py_split 0x2F 3 (ustr_of ''1/100.5/13.7/'' @ [0x0E01, 0x61])
       = [ustr_of ''1'', ustr_of ''100.5'', ustr_of ''13.7'', [0x0E01, 0x61]]
   \<and> parse_request demo_env (ustr_of ''1/100.5/13.7/'' @ [0x0E01, 0x61])
       = (Inr (ustr_of ''1'', ustr_of ''th'', [0x0E01, 0x61]), [])"
proof -
  have s: "py_split 0x2F 3 (ustr_of ''1/100.5/13.7/'' @ [0x0E01, 0x61])
       = [ustr_of ''1'', ustr_of ''100.5'', ustr_of ''13.7'', [0x0E01, 0x61]]"
    by (simp add: ustr_of_def numeral_3_eq_3)
  have g: "geo_ready demo_env" by (simp add: demo_env_def)
  have t: "\<exists>c\<in>set [0x0E01, 0x61 :: nat]. 0x0E00 < c \<and> c < 0x0E7F" by simp
  have c: "\<forall>c\<in>set [0x0E01, 0x61 :: nat]. \<not> cjk_block c" by (simp add: cjk_block_def)
  show ?thesis using thai_name_resolves_to_th [OF g s t c] g s by simp
qed

text \<open>
  As C4 is worded, with the whole Thai block, it fails at the first code point of the
  block: U+0E00 is in the block and not in the CJK block, and the country code of the
  request is empty, not \<^verbatim>\<open>th\<close>.
\<close>

theorem thai_block_start_counterexample:
  "thai_block 0x0E00 \<and> \<not> cjk_block 0x0E00 \<and> geo_ready demo_env
   \<and> py_split 0x2F 3 (ustr_of ''1/100.5/13.7/'' @ [0x0E00])
       = [ustr_of ''1'', ustr_of ''100.5'', ustr_of ''13.7'', [0x0E00]]
   \<and> parse_request demo_env (ustr_of ''1/100.5/13.7/'' @ [0x0E00])
       = (Inr (ustr_of ''1'', [], [0x0E00]), [])
   \<and> [] \<noteq> ustr_of ''th''"
proof -
  have s: "py_split 0x2F 3 (ustr_of ''1/100.5/13.7/'' @ [0x0E00])
       = [ustr_of ''1'', ustr_of ''100.5'', ustr_of ''13.7'', [0x0E00]]"
    by (simp add: ustr_of_def numeral_3_eq_3)
  have g: "geo_ready demo_env" by (simp add: demo_env_def)
  have p: "parse_request demo_env (ustr_of ''1/100.5/13.7/'' @ [0x0E00])
       = (Inr (ustr_of ''1'', [], [0x0E00]), [])"
    using g by (simp add: parse_request_4 [OF s])
  have n: "[] \<noteq> ustr_of ''th''" by (simp add: ustr_of_def)
  show ?thesis
    using g s p n by (simp add: cjk_block_def thai_block_def)
qed

subsection \<open>C5: the Thai strategy\<close>



subsection \<open>C6: a failing strategy\<close>

text \<open>
  C6: whenever the Thai engine raises on some Thai run (country \<^verbatim>\<open>th\<close>), or the
  Cantonese engine raises on some CJK run (country \<^verbatim>\<open>mo\<close> or \<^verbatim>\<open>hk\<close>), or the
  dispatcher returns a non-text result, the call returns \<^verbatim>\<open>None\<close> and no partial
  text, standard error receives the strategy's message and the handler's, the reply to
  the request is the empty string (a frame of length 0), and the handler goes on to the
  next request.
\<close>

theorem strategy_failure_isolated:
  assumes rd: "read_request (inp st) = (Inr (Some data), rest)"
    and pr: "parse_request e data = (Inr (ident, cc, name), q)"
    and ne: "name \<noteq> []"
    and fl: "(cc = ustr_of ''th''
              \<and> (\<exists>runs. split_by_alphabet (uname e) name = Inr runs
                    \<and> (\<exists>r\<in>set runs. run_alphabet e r = Some ''THAI'' \<and> isl (th2roman e r))))
           \<or> ((cc = ustr_of ''mo'' \<or> cc = ustr_of ''hk'')
              \<and> (\<exists>runs. split_by_alphabet (uname e) name = Inr runs
                    \<and> (\<exists>r\<in>set runs. run_alphabet e r = Some ''CJK'' \<and> isl (jyutping e r))))
           \<or> fst (transcript e cc name) = Inr None"
  shows "\<exists>lg. lg \<noteq> [] \<and> transcript e cc name = (Inr None, lg)
           \<and> serve_one e st =
               Continue (st\<lparr>inp := rest, queries := queries st @ q,
                           stderr := stderr st @ lg @ [NonString ident cc name],
                           outp := outp st @ [0, 0, 0, 0]\<rparr>)"
proof -
  have none: "fst (transcript e cc name) = Inr None"
    using fl
  proof (elim disjE conjE exE)
    fix runs
    assume "cc = ustr_of ''th''" and "split_by_alphabet (uname e) name = Inr runs"
      and "\<exists>r\<in>set runs. run_alphabet e r = Some ''THAI'' \<and> isl (th2roman e r)"
    then show ?thesis using thai_transcript_fails [of e name runs] by (auto simp: transcript_th)
  next
    fix runs
    assume "cc = ustr_of ''mo''" and "split_by_alphabet (uname e) name = Inr runs"
      and "\<exists>r\<in>set runs. run_alphabet e r = Some ''CJK'' \<and> isl (jyutping e r)"
    then show ?thesis
      using cantonese_transcript_fails [of e name runs] by (auto simp: transcript_mo_hk)
  next
    fix runs
    assume "cc = ustr_of ''hk''" and "split_by_alphabet (uname e) name = Inr runs"
      and "\<exists>r\<in>set runs. run_alphabet e r = Some ''CJK'' \<and> isl (jyutping e r)"
    then show ?thesis
      using cantonese_transcript_fails [of e name runs] by (auto simp: transcript_mo_hk)
  qed
  obtain lg where t: "transcript e cc name = (Inr None, lg)"
    using none by (cases "transcript e cc name") auto
  have lg: "lg \<noteq> []" using transcript_None [OF none] t by simp
  have "serve_one e st =
      Continue (st\<lparr>inp := rest, queries := queries st @ q,
                  stderr := stderr st @ lg @ [NonString ident cc name],
                  outp := outp st @ [0, 0, 0, 0]\<rparr>)"
    using serve_one_parsed [OF rd pr] respond_None [OF ne t] by simp
  with t lg show ?thesis by blast
qed

text \<open>The request \<^verbatim>\<open>7/th/\<close> followed by U+0E02, which the engine of \<open>demo_env\<close>
  does not know.\<close>

theorem strategy_failure_isolated_witness:
  "read_request [8, 0, 0, 0, 55, 47, 116, 104, 47, 0xE0, 0xB8, 0x82]
      = (Inr (Some (ustr_of ''7/th/'' @ [0x0E02])), [])
   \<and> transcript demo_env (ustr_of ''th'') [0x0E02] = (Inr None, [TltkError [0x0E02]])
   \<and> serve_one demo_env
        \<lparr>inp = [8, 0, 0, 0, 55, 47, 116, 104, 47, 0xE0, 0xB8, 0x82], outp = [], stderr = [],
         queries = []\<rparr>
      = Continue \<lparr>inp = [], outp = [0, 0, 0, 0],
          stderr = [TltkError [0x0E02], NonString (ustr_of ''7'') (ustr_of ''th'') [0x0E02]],
          queries = []\<rparr>"
proof -
  let ?st = "\<lparr>inp = [8, 0, 0, 0, 55, 47, 116, 104, 47, 0xE0, 0xB8, 0x82], outp = [],
     stderr = [], queries = []\<rparr> :: conn"
  have rd: "read_request (inp ?st) = (Inr (Some (ustr_of ''7/th/'' @ [0x0E02])), [])"
    by (simp add: read_request_def readexactly_def is_cont_def ustr_of_def)
  have s: "py_split 0x2F 3 (ustr_of ''7/th/'' @ [0x0E02]) = [ustr_of ''7'', ustr_of ''th'', [0x0E02]]"
    by (simp add: ustr_of_def numeral_3_eq_3)
  have pr: "parse_request demo_env (ustr_of ''7/th/'' @ [0x0E02])
      = (Inr (ustr_of ''7'', ustr_of ''th'', [0x0E02]), [])"
    by (rule parse_request_3 [OF s])
  have ne: "[0x0E02] \<noteq> ([] :: ustr)" by simp
  have un: "uname demo_env 0x0E02 = Some ''THAI CHARACTER''"
    by (simp add: demo_env_def demo_names_def)
  have al: "alphabet_of ''THAI CHARACTER'' = ''THAI''" by (simp add: alphabet_of_def)
  have sp: "split_by_alphabet (uname demo_env) [0x0E02] = Inr [[0x0E02]]"
    by (simp add: split_by_alphabet_def un)
  have ra: "run_alphabet demo_env [0x0E02] = Some ''THAI''"
    by (simp add: run_alphabet_def char_alphabet_def un al)
  have eng: "th2roman demo_env [0x0E02] = Inl EngineError" by (simp add: demo_env_def)
  have tr: "transcript demo_env (ustr_of ''th'') [0x0E02] = (Inr None, [TltkError [0x0E02]])"
    by (simp add: transcript_th thai_transcript_def sp un al eng)
  have fl: "(ustr_of ''th'' = ustr_of ''th''
              \<and> (\<exists>runs. split_by_alphabet (uname demo_env) [0x0E02] = Inr runs
                    \<and> (\<exists>r\<in>set runs. run_alphabet demo_env r = Some ''THAI''
                          \<and> isl (th2roman demo_env r))))
           \<or> ((ustr_of ''th'' = ustr_of ''mo'' \<or> ustr_of ''th'' = ustr_of ''hk'')
              \<and> (\<exists>runs. split_by_alphabet (uname demo_env) [0x0E02] = Inr runs
                    \<and> (\<exists>r\<in>set runs. run_alphabet demo_env r = Some ''CJK''
                          \<and> isl (jyutping demo_env r))))
           \<or> fst (transcript demo_env (ustr_of ''th'') [0x0E02]) = Inr None"
    by (simp add: sp ra eng)
  from strategy_failure_isolated [OF rd pr ne fl]
  have "serve_one demo_env ?st =
      Continue (?st\<lparr>inp := [], queries := queries ?st @ [],
        stderr := stderr ?st @ [TltkError [0x0E02]] @ [NonString (ustr_of ''7'') (ustr_of ''th'') [0x0E02]],
        outp := outp ?st @ [0, 0, 0, 0]\<rparr>)"
    by (auto simp: tr)
  then show ?thesis using rd tr by simp
qed

subsection \<open>C7: requests with a country code\<close>

text \<open>
  C7: for every request of three fields the country code of the request is the one
  handed to the transcription, whatever the name contains, and no query is sent to the
  country backend while the request is served.
\<close>

theorem three_field_country_verbatim:
  assumes "read_request (inp st) = (Inr (Some data), rest)"
    and "py_split 0x2F 3 data = [ident, cc, name]"
  shows "parse_request e data = (Inr (ident, cc, name), [])
       \<and> serve_one e st = respond e (st\<lparr>inp := rest\<rparr>) ident cc name
       \<and> queries (conn_of (serve_one e st)) = queries st"
proof -
  have p: "parse_request e data = (Inr (ident, cc, name), [])"
    by (rule parse_request_3 [OF assms(2)])
  have s: "serve_one e st = respond e (st\<lparr>inp := rest\<rparr>) ident cc name"
    using serve_one_parsed [OF assms(1) p] by simp
  show ?thesis using p s by (simp add: respond_queries)
qed

text \<open>The request \<^verbatim>\<open>7/th/\<close> followed by the ideograph U+4E01: the country code stays
  \<^verbatim>\<open>th\<close> though the name is CJK and the resolver is ready.\<close>

theorem three_field_country_verbatim_witness:
  "read_request [8, 0, 0, 0, 55, 47, 116, 104, 47, 0xE4, 0xB8, 0x81]
      = (Inr (Some (ustr_of ''7/th/'' @ [0x4E01])), [])
   \<and> py_split 0x2F 3 (ustr_of ''7/th/'' @ [0x4E01]) = [ustr_of ''7'', ustr_of ''th'', [0x4E01]]
   \<and> geo_ready demo_env \<and> contains_cjk [0x4E01]
   \<and> parse_request demo_env (ustr_of ''7/th/'' @ [0x4E01])
      = (Inr (ustr_of ''7'', ustr_of ''th'', [0x4E01]), [])
   \<and> queries (conn_of (serve_one demo_env
        \<lparr>inp = [8, 0, 0, 0, 55, 47, 116, 104, 47, 0xE4, 0xB8, 0x81], outp = [], stderr = [],
         queries = []\<rparr>)) = []"
proof -
  let ?st = "\<lparr>inp = [8, 0, 0, 0, 55, 47, 116, 104, 47, 0xE4, 0xB8, 0x81], outp = [],
     stderr = [], queries = []\<rparr> :: conn"
  have rd: "read_request (inp ?st) = (Inr (Some (ustr_of ''7/th/'' @ [0x4E01])), [])"
    by (simp add: read_request_def readexactly_def is_cont_def ustr_of_def)
  have s: "py_split 0x2F 3 (ustr_of ''7/th/'' @ [0x4E01]) = [ustr_of ''7'', ustr_of ''th'', [0x4E01]]"
    by (simp add: ustr_of_def numeral_3_eq_3)
  have g: "geo_ready demo_env" by (simp add: demo_env_def)
  note t = three_field_country_verbatim [OF rd s, of demo_env]
  show ?thesis using t rd s g by (simp add: respond_queries)
qed

subsection \<open>C8: the empty name\<close>

text \<open>
  C8: for every request of three or four fields whose name is the empty string, the
  reply is the empty string (a frame of length 0); nothing is logged, no query is sent,
  and the handler goes on.
\<close>

theorem empty_name_empty_reply:
  assumes "read_request (inp st) = (Inr (Some data), rest)"
    and "py_split 0x2F 3 data = [ident, cc, []] \<or> py_split 0x2F 3 data = [ident, lon, lat, []]"
  shows "serve_one e st = Continue (st\<lparr>inp := rest, outp := outp st @ [0, 0, 0, 0]\<rparr>)"
proof -
  from assms(2) have "\<exists>c. parse_request e data = (Inr (ident, c, []), [])"
  proof
    assume "py_split 0x2F 3 data = [ident, cc, []]"
    then show ?thesis by (simp add: parse_request_3)
  next
    assume "py_split 0x2F 3 data = [ident, lon, lat, []]"
    then show ?thesis by (simp add: parse_request_4)
  qed
  then obtain c where p: "parse_request e data = (Inr (ident, c, []), [])" ..
  show ?thesis using serve_one_parsed [OF assms(1) p] by (simp add: respond_empty_name)
qed

text \<open>The requests \<^verbatim>\<open>7//\<close> and \<^verbatim>\<open>7/1/2/\<close>.\<close>

theorem empty_name_empty_reply_witness:
  "serve_one demo_env \<lparr>inp = [3, 0, 0, 0, 55, 47, 47], outp = [], stderr = [], queries = []\<rparr>
      = Continue \<lparr>inp = [], outp = [0, 0, 0, 0], stderr = [], queries = []\<rparr>
   \<and> serve_one demo_env
        \<lparr>inp = [6, 0, 0, 0, 55, 47, 49, 47, 50, 47], outp = [], stderr = [], queries = []\<rparr>
      = Continue \<lparr>inp = [], outp = [0, 0, 0, 0], stderr = [], queries = []\<rparr>"
proof -
  let ?a = "\<lparr>inp = [3, 0, 0, 0, 55, 47, 47], outp = [], stderr = [], queries = []\<rparr> :: conn"
  let ?b = "\<lparr>inp = [6, 0, 0, 0, 55, 47, 49, 47, 50, 47], outp = [], stderr = [],
     queries = []\<rparr> :: conn"
  have ra: "read_request (inp ?a) = (Inr (Some (ustr_of ''7//'')), [])"
    by (simp add: read_request_def readexactly_def ustr_of_def)
  have rb: "read_request (inp ?b) = (Inr (Some (ustr_of ''7/1/2/'')), [])"
    by (simp add: read_request_def readexactly_def ustr_of_def)
  have sa: "py_split 0x2F 3 (ustr_of ''7//'') = [ustr_of ''7'', [], []]
      \<or> py_split 0x2F 3 (ustr_of ''7//'') = [ustr_of ''7'', [], [], []]"
    by (simp add: ustr_of_def numeral_3_eq_3)
  have sb: "py_split 0x2F 3 (ustr_of ''7/1/2/'') = [ustr_of ''7'', [], []]
      \<or> py_split 0x2F 3 (ustr_of ''7/1/2/'') = [ustr_of ''7'', ustr_of ''1'', ustr_of ''2'', []]"
    by (simp add: ustr_of_def numeral_3_eq_3)
  note a = empty_name_empty_reply [OF ra sa, of demo_env]
  note b = empty_name_empty_reply [OF rb sb, of demo_env]
  show ?thesis using a b by simp
qed

subsection \<open>C9: framing\<close>



subsection \<open>C10: code points without a name\<close>

text \<open>
  C10: if the name handed to the Thai or Cantonese strategy (country \<^verbatim>\<open>th\<close>,
  \<^verbatim>\<open>mo\<close> or \<^verbatim>\<open>hk\<close>) contains a code point without a Unicode name, the run
  splitting raises \<^verbatim>\<open>ValueError\<close> whatever else the name contains; the handler logs
  it, replies with the empty string (a frame of length 0) and goes on to the next
  request.
\<close>

theorem unnamed_codepoint_empty_reply:
  assumes rd: "read_request (inp st) = (Inr (Some data), rest)"
    and pr: "parse_request e data = (Inr (ident, cc, name), q)"
    and cc: "cc = ustr_of ''th'' \<or> cc = ustr_of ''mo'' \<or> cc = ustr_of ''hk''"
    and ne: "name \<noteq> []"
    and un: "\<exists>c\<in>set name. uname e c = None"
  shows "split_by_alphabet (uname e) name = Inl ValueError
       \<and> transcript e cc name = (Inl ValueError, [])
       \<and> serve_one e st =
           Continue (st\<lparr>inp := rest, queries := queries st @ q,
                       stderr := stderr st @ [RequestError ident ValueError],
                       outp := outp st @ [0, 0, 0, 0]\<rparr>)"
proof -
  have sp: "split_by_alphabet (uname e) name = Inl ValueError"
    by (rule split_by_alphabet_unnamed [OF ne un])
  have t: "transcript e cc name = (Inl ValueError, [])"
    using cc
  proof
    assume "cc = ustr_of ''th''"
    then show ?thesis by (simp add: transcript_th thai_transcript_def sp)
  next
    assume "cc = ustr_of ''mo'' \<or> cc = ustr_of ''hk''"
    then show ?thesis by (simp add: transcript_mo_hk cantonese_transcript_def sp)
  qed
  have "serve_one e st =
      Continue (st\<lparr>inp := rest, queries := queries st @ q,
                  stderr := stderr st @ [RequestError ident ValueError],
                  outp := outp st @ [0, 0, 0, 0]\<rparr>)"
    using serve_one_parsed [OF rd pr] respond_raise [OF ne t] by simp
  with sp t show ?thesis by blast
qed

text \<open>The request \<^verbatim>\<open>7/th/\<close> followed by U+0E01 and a line feed: the Thai letter
  could be transcribed, the line feed has no name.\<close>

theorem unnamed_codepoint_empty_reply_witness:
  "read_request [9, 0, 0, 0, 55, 47, 116, 104, 47, 0xE0, 0xB8, 0x81, 0x0A]
      = (Inr (Some (ustr_of ''7/th/'' @ [0x0E01, 0x0A])), [])
   \<and> uname demo_env 0x0A = None
   \<and> th2roman demo_env [0x0E01] = Inr (ustr_of ''ko <s/>'')
   \<and> serve_one demo_env
        \<lparr>inp = [9, 0, 0, 0, 55, 47, 116, 104, 47, 0xE0, 0xB8, 0x81, 0x0A], outp = [],
         stderr = [], queries = []\<rparr>
      = Continue \<lparr>inp = [], outp = [0, 0, 0, 0],
          stderr = [RequestError (ustr_of ''7'') ValueError], queries = []\<rparr>"
proof -
  let ?st = "\<lparr>inp = [9, 0, 0, 0, 55, 47, 116, 104, 47, 0xE0, 0xB8, 0x81, 0x0A], outp = [],
     stderr = [], queries = []\<rparr> :: conn"
  have rd: "read_request (inp ?st) = (Inr (Some (ustr_of ''7/th/'' @ [0x0E01, 0x0A])), [])"
    by (simp add: read_request_def readexactly_def is_cont_def ustr_of_def)
  have s: "py_split 0x2F 3 (ustr_of ''7/th/'' @ [0x0E01, 0x0A])
      = [ustr_of ''7'', ustr_of ''th'', [0x0E01, 0x0A]]"
    by (simp add: ustr_of_def numeral_3_eq_3)
  have pr: "parse_request demo_env (ustr_of ''7/th/'' @ [0x0E01, 0x0A])
      = (Inr (ustr_of ''7'', ustr_of ''th'', [0x0E01, 0x0A]), [])"
    by (rule parse_request_3 [OF s])
  have cc: "ustr_of ''th'' = ustr_of ''th'' \<or> ustr_of ''th'' = ustr_of ''mo''
      \<or> ustr_of ''th'' = ustr_of ''hk''" by simp
  have ne: "[0x0E01, 0x0A] \<noteq> ([] :: ustr)" by simp
  have u0: "uname demo_env 0x0A = None" by (simp add: demo_env_def demo_names_def)
  have un: "\<exists>c\<in>set [0x0E01, 0x0A]. uname demo_env c = None" using u0 by simp
  have eng: "th2roman demo_env [0x0E01] = Inr (ustr_of ''ko <s/>'')" by (simp add: demo_env_def)
  note t = unnamed_codepoint_empty_reply [OF rd pr cc ne un]
  show ?thesis using t rd u0 eng by simp
qed

end
